theory Spec2Isabelle
  imports Complex_Main
begin

section \<open>BER simulation of BPSK, QPSK and 16-QAM: the model\<close>

text \<open>
  The development embeds the body of \<open>simulate_ber\<close> of
  \<open>digital_modulation_simulation.py\<close>: one trial of one scheme at one Eb/N0 point, that
  is modulation, the AWGN channel and demodulation.

  Conventions of the embedding.
  \<^item> A numpy array of one dimension is a list. A numpy \<open>float64\<close> is a \<open>real\<close> and a
    \<open>complex128\<close> is a \<open>complex\<close>: arithmetic is exact, rounding is not modelled.
  \<^item> The bits are the integers that \<open>np.random.randint(0, 2, NUM_BITS)\<close> draws; the model
    takes the drawn array as the parameter \<open>bits\<close>, and \<open>NUM_BITS\<close> is its length.
  \<^item> The two calls of \<open>np.random.randn\<close> are the parameters \<open>zr\<close> and \<open>zi\<close>: sample
    \<open>i\<close> of the first and of the second call.
  \<^item> An exception of Python is a value of \<open>error\<close>; a computation that may raise returns
    \<open>error + 'a\<close>, with \<open>Inl\<close> for the exception.
\<close>

datatype scheme = BPSK | QPSK | QAM16

datatype error = ValueError | KeyError

definition MODULATION_SCHEMES :: "scheme list" where
  "MODULATION_SCHEMES = [BPSK, QPSK, QAM16]"

text \<open>The variable \<open>k\<close> that each modulation branch sets: the bits carried by a symbol.\<close>

fun bits_per_symbol :: "scheme \<Rightarrow> nat" where
  "bits_per_symbol BPSK = 1"
| "bits_per_symbol QPSK = 2"
| "bits_per_symbol QAM16 = 4"

subsection \<open>The numpy operations the code uses\<close>

text \<open>The slices \<open>a[0::2]\<close> and \<open>a[1::2]\<close>.\<close>

fun slice0 :: "'a list \<Rightarrow> 'a list" where
  "slice0 [] = []"
| "slice0 [x] = [x]"
| "slice0 (x # y # xs) = x # slice0 xs"

fun slice1 :: "'a list \<Rightarrow> 'a list" where
  "slice1 [] = []"
| "slice1 [x] = []"
| "slice1 (x # y # xs) = y # slice1 xs"

text \<open>
  A binary operation on two arrays of one dimension broadcasts: equal lengths combine
  elementwise, an array of length one is stretched to the other length (also to length
  zero), and any other pair of lengths raises \<open>ValueError\<close>.
\<close>

definition broadcast2 :: "('a \<Rightarrow> 'b \<Rightarrow> 'c) \<Rightarrow> 'a list \<Rightarrow> 'b list \<Rightarrow> error + 'c list" where
  "broadcast2 f xs ys =
     (if length xs = length ys then Inr (map2 f xs ys)
      else if length xs = 1 then Inr (map (f (hd xs)) ys)
      else if length ys = 1 then Inr (map (\<lambda>x. f x (hd ys)) xs)
      else Inl ValueError)"

text \<open>
  The assignment \<open>a[i::2] = v\<close> into a slice of \<open>len\<close> elements: \<open>v\<close> must have that
  length or length one (it is then repeated); otherwise numpy raises \<open>ValueError\<close>.
  The result is the new content of the slice.
\<close>

definition assign_slice :: "nat \<Rightarrow> 'a list \<Rightarrow> error + 'a list" where
  "assign_slice len v =
     (if length v = len then Inr v
      else if length v = 1 then Inr (replicate len (hd v))
      else Inl ValueError)"

text \<open>
  \<open>reshape(-1, 4)\<close> raises \<open>ValueError\<close> unless the length is a multiple of four;
  otherwise it gives the consecutive rows of four.
\<close>

fun rows4 :: "'a list \<Rightarrow> 'a list list" where
  "rows4 (a # b # c # d # xs) = [a, b, c, d] # rows4 xs"
| "rows4 xs = []"

definition reshape :: "'a list \<Rightarrow> error + 'a list list" where
  "reshape xs = (if length xs mod 4 = 0 then Inr (rows4 xs) else Inl ValueError)"

text \<open>
  \<open>np.argmin\<close>: the index of the first occurrence of the minimum; it raises
  \<open>ValueError\<close> on an empty array.
\<close>

fun argmin :: "real list \<Rightarrow> error + nat" where
  "argmin [] = Inl ValueError"
| "argmin [x] = Inr 0"
| "argmin (x # y # ys) =
     (case argmin (y # ys) of
        Inl e \<Rightarrow> Inl e
      | Inr j \<Rightarrow> if x \<le> (y # ys) ! j then Inr 0 else Inr (Suc j))"

subsection \<open>Modulation\<close>

text \<open>
  The dictionary \<open>mapping\<close> of the 16-QAM branch, in insertion order; a key, a tuple
  of four bits, is a list of four integers.
\<close>

definition mapping :: "(int list \<times> complex) list" where
  "mapping =
    [([0,0,0,0], Complex (-3) (-3)), ([0,0,0,1], Complex (-3) (-1)),
     ([0,0,1,0], Complex (-3) 3),    ([0,0,1,1], Complex (-3) 1),
     ([0,1,0,0], Complex (-1) (-3)), ([0,1,0,1], Complex (-1) (-1)),
     ([0,1,1,0], Complex (-1) 3),    ([0,1,1,1], Complex (-1) 1),
     ([1,0,0,0], Complex 3 (-3)),    ([1,0,0,1], Complex 3 (-1)),
     ([1,0,1,0], Complex 3 3),       ([1,0,1,1], Complex 3 1),
     ([1,1,0,0], Complex 1 (-3)),    ([1,1,0,1], Complex 1 (-1)),
     ([1,1,1,0], Complex 1 3),       ([1,1,1,1], Complex 1 1)]"

text \<open>
  The comprehension \<open>[mapping[tuple(b)] for b in bits_reshaped]\<close>: a row that is not a
  key raises \<open>KeyError\<close>.
\<close>

fun map_rows :: "int list list \<Rightarrow> error + complex list" where
  "map_rows [] = Inr []"
| "map_rows (b # bs) =
     (case map_of mapping b of
        None \<Rightarrow> Inl KeyError
      | Some v \<Rightarrow> (case map_rows bs of Inl e \<Rightarrow> Inl e | Inr vs \<Rightarrow> Inr (v # vs)))"

text \<open>The three modulation branches, giving \<open>transmitted_symbols\<close>.\<close>

fun modulate :: "scheme \<Rightarrow> int list \<Rightarrow> error + complex list" where
  "modulate BPSK bits = Inr (map (\<lambda>b. of_int (2 * b - 1)) bits)"
| "modulate QPSK bits =
     (case broadcast2 (+) (map (\<lambda>b. of_int (1 - 2 * b)) (slice0 bits))
                          (map (\<lambda>b. \<i> * of_int (1 - 2 * b)) (slice1 bits)) of
        Inl e \<Rightarrow> Inl e
      | Inr syms \<Rightarrow> Inr (map (\<lambda>z. z / of_real (sqrt 2)) syms))"
| "modulate QAM16 bits =
     (case reshape bits of
        Inl e \<Rightarrow> Inl e
      | Inr bits_reshaped \<Rightarrow>
          (case map_rows bits_reshaped of
             Inl e \<Rightarrow> Inl e
           | Inr syms \<Rightarrow> Inr (map (\<lambda>z. z / of_real (sqrt 10)) syms)))"

subsection \<open>The AWGN channel\<close>

definition EbN0_linear :: "real \<Rightarrow> real" where
  "EbN0_linear EbN0_dB = 10 powr (EbN0_dB / 10)"

definition EsN0_linear :: "scheme \<Rightarrow> real \<Rightarrow> real" where
  "EsN0_linear s EbN0_dB = real (bits_per_symbol s) * EbN0_linear EbN0_dB"

definition noise_variance :: "scheme \<Rightarrow> real \<Rightarrow> real" where
  "noise_variance s EbN0_dB = 1 / (2 * EsN0_linear s EbN0_dB)"

definition noise :: "scheme \<Rightarrow> real \<Rightarrow> (nat \<Rightarrow> real) \<Rightarrow> (nat \<Rightarrow> real) \<Rightarrow> nat \<Rightarrow> complex list" where
  "noise s EbN0_dB zr zi len =
     map (\<lambda>i. of_real (sqrt (noise_variance s EbN0_dB)) * (of_real (zr i) + \<i> * of_real (zi i)))
       [0..<len]"

text \<open>
  \<open>received_symbols = transmitted_symbols + noise\<close>; the noise is drawn with the length
  of the symbol array, so the sum is elementwise.
\<close>

definition received_symbols ::
  "scheme \<Rightarrow> real \<Rightarrow> complex list \<Rightarrow> (nat \<Rightarrow> real) \<Rightarrow> (nat \<Rightarrow> real) \<Rightarrow> complex list" where
  "received_symbols s EbN0_dB transmitted_symbols zr zi =
     map2 (+) transmitted_symbols (noise s EbN0_dB zr zi (length transmitted_symbols))"

subsection \<open>Demodulation\<close>

definition constellation :: "complex list" where
  "constellation = map (\<lambda>v. v / of_real (sqrt 10)) (map snd mapping)"

text \<open>
  \<open>demapping = {v: k for k, v in mapping.items()}\<close>: a later item replaces an earlier
  one with the same value, so a lookup finds the last item.
\<close>

definition demapping :: "complex \<Rightarrow> int list option" where
  "demapping = map_of (rev (map (\<lambda>(k, v). (v, k)) mapping))"

text \<open>The body of the 16-QAM loop, for one received symbol: the four bits it extends by.\<close>

definition closest_bits :: "complex \<Rightarrow> error + int list" where
  "closest_bits s =
     (case argmin (map (\<lambda>c. cmod (s - c)) constellation) of
        Inl e \<Rightarrow> Inl e
      | Inr j \<Rightarrow>
          (case demapping (constellation ! j * of_real (sqrt 10)) of
             None \<Rightarrow> Inl KeyError
           | Some g \<Rightarrow> Inr g))"

text \<open>The loop over the received symbols; \<open>received_bits\<close> is the accumulator.\<close>

fun qam_loop :: "complex list \<Rightarrow> int list \<Rightarrow> error + int list" where
  "qam_loop [] received_bits = Inr received_bits"
| "qam_loop (s # ss) received_bits =
     (case closest_bits s of
        Inl e \<Rightarrow> Inl e
      | Inr g \<Rightarrow> qam_loop ss (received_bits @ g))"

text \<open>
  The three demodulation branches. The QPSK branch allocates \<open>received_bits\<close> with the
  shape of \<open>transmitted_bits\<close>, the parameter \<open>n\<close>, and fills its two slices.
\<close>

fun demodulate :: "scheme \<Rightarrow> nat \<Rightarrow> complex list \<Rightarrow> error + int list" where
  "demodulate BPSK n rx = Inr (map (\<lambda>s. if Re s < 0 then 1 else 0) rx)"
| "demodulate QPSK n rx =
     (let bits_real = map (\<lambda>s. if Re s < 0 then 1 else 0) rx;
          bits_imag = map (\<lambda>s. if Im s < 0 then 1 else 0) rx
      in case assign_slice ((n + 1) div 2) bits_real of
           Inl e \<Rightarrow> Inl e
         | Inr ev \<Rightarrow>
             (case assign_slice (n div 2) bits_imag of
                Inl e \<Rightarrow> Inl e
              | Inr od \<Rightarrow> Inr (splice ev od)))"
| "demodulate QAM16 n rx = qam_loop rx []"

subsection \<open>One trial\<close>

text \<open>Modulation, channel and demodulation of one scheme at one Eb/N0 point.\<close>

definition simulate_trial ::
  "scheme \<Rightarrow> real \<Rightarrow> int list \<Rightarrow> (nat \<Rightarrow> real) \<Rightarrow> (nat \<Rightarrow> real) \<Rightarrow> error + int list" where
  "simulate_trial s EbN0_dB transmitted_bits zr zi =
     (case modulate s transmitted_bits of
        Inl e \<Rightarrow> Inl e
      | Inr transmitted_symbols \<Rightarrow>
          demodulate s (length transmitted_bits)
            (received_symbols s EbN0_dB transmitted_symbols zr zi))"

subsection \<open>Notions the properties are stated with\<close>

text \<open>A well-formed bit sequence: every element is 0 or 1.\<close>

definition is_bits :: "int list \<Rightarrow> bool" where
  "is_bits bits = list_all (\<lambda>b. b = 0 \<or> b = 1) bits"

text \<open>All bit groups of a given width, in lexicographic order.\<close>

primrec bit_groups :: "nat \<Rightarrow> int list list" where
  "bit_groups 0 = [[]]"
| "bit_groups (Suc n) = map ((#) 0) (bit_groups n) @ map ((#) 1) (bit_groups n)"

text \<open>
  The constellation of a scheme: the symbols that the modulation branch gives for each
  bit group of the scheme's width.
\<close>

definition constellation_points :: "scheme \<Rightarrow> complex list" where
  "constellation_points s =
     concat (map (\<lambda>g. case modulate s g of Inl e \<Rightarrow> [] | Inr syms \<Rightarrow> syms)
                 (bit_groups (bits_per_symbol s)))"

section \<open>Supporting lemmas\<close>

subsection \<open>Slices, groups and the table\<close>

lemma bits_per_symbol_pos: "0 < bits_per_symbol s"
  by (cases s) simp_all

lemma length_slice0: "length (slice0 xs) = (length xs + 1) div 2"
  by (induction xs rule: slice0.induct) simp_all

lemma length_slice1: "length (slice1 xs) = length xs div 2"
  by (induction xs rule: slice1.induct) simp_all

lemma splice_slices: "splice (slice0 xs) (slice1 xs) = xs"
  by (induction xs rule: slice0.induct) simp_all

lemma splice_set: "set (splice xs ys) = set xs \<union> set ys"
  by (induction xs ys rule: splice.induct) auto

lemma splice_map: "splice (map f xs) (map g xs) = concat (map (\<lambda>x. [f x, g x]) xs)"
  by (induction xs) simp_all

lemma assign_slice_set: "assign_slice len v = Inr w \<Longrightarrow> set w \<subseteq> set v"
  by (cases v) (auto simp: assign_slice_def split: if_splits)

lemma length_rows4: "length (rows4 xs) = length xs div 4"
  by (induction xs rule: rows4.induct) simp_all

lemma length_map_rows: "map_rows rows = Inr syms \<Longrightarrow> length syms = length rows"
  by (induction rows arbitrary: syms) (auto split: option.splits sum.splits)

lemma bit_groups_1: "bit_groups 1 = [[0], [1]]"
  by (simp add: numeral_eq_Suc)

lemma bit_groups_2: "bit_groups 2 = [[0, 0], [0, 1], [1, 0], [1, 1]]"
  by (simp add: numeral_eq_Suc)

lemma bit_groups_4: "bit_groups 4 = map fst mapping"
  by (simp add: numeral_eq_Suc mapping_def)

lemma length_bit_groups: "length (bit_groups n) = 2 ^ n"
  by (induction n) simp_all

lemma distinct_bit_groups: "distinct (bit_groups n)"
  by (induction n) (auto simp: distinct_map inj_on_def)

lemma set_bit_groups: "set (bit_groups n) = {g. length g = n \<and> is_bits g}"
proof (induction n)
  case 0
  then show ?case by (auto simp: is_bits_def)
next
  case (Suc n)
  show ?case
  proof (rule set_eqI)
    fix g :: "int list"
    show "g \<in> set (bit_groups (Suc n)) \<longleftrightarrow> g \<in> {g. length g = Suc n \<and> is_bits g}"
      using Suc by (cases g) (auto simp: is_bits_def)
  qed
qed

lemma length_mapping: "length mapping = 16"
  by (simp add: mapping_def)

lemma distinct_keys: "distinct (map fst mapping)"
  by (simp add: mapping_def)

lemma distinct_values: "distinct (map snd mapping)"
  by (simp add: mapping_def)

lemma length_constellation: "length constellation = 16"
  by (simp add: constellation_def length_mapping)

lemma distinct_constellation: "distinct constellation"
  unfolding constellation_def
  by (rule iffD2[OF distinct_map]) (simp add: distinct_values inj_on_def)

lemma constellation_nth:
  "j < 16 \<Longrightarrow> constellation ! j * of_real (sqrt 10) = snd (mapping ! j)"
  by (simp add: constellation_def length_mapping)

lemma keys_are_groups:
  assumes "j < 16"
  shows "length (fst (mapping ! j)) = 4 \<and> is_bits (fst (mapping ! j))"
proof -
  have "fst (mapping ! j) \<in> set (bit_groups 4)"
    using assms by (simp add: bit_groups_4 length_mapping)
  then show ?thesis by (simp add: set_bit_groups)
qed

text \<open>The reverse dictionary sends the value of each item back to its key.\<close>

lemma demapping_nth:
  assumes "j < 16"
  shows "demapping (snd (mapping ! j)) = Some (fst (mapping ! j))"
proof -
  let ?items = "rev (map (\<lambda>(k, v). (v, k)) mapping)"
  have "map fst ?items = rev (map snd mapping)"
    by (simp add: rev_map case_prod_unfold comp_def)
  then have d: "distinct (map fst ?items)"
    using distinct_values by simp
  have "mapping ! j \<in> set mapping"
    using assms by (simp add: length_mapping)
  then have "(snd (mapping ! j), fst (mapping ! j)) \<in> set ?items"
    by (force simp: case_prod_unfold)
  then show ?thesis
    unfolding demapping_def using d by (simp only: map_of_eq_Some_iff)
qed

subsection \<open>The constellations\<close>

lemma points_BPSK: "constellation_points BPSK = [-1, 1]"
  by (simp add: constellation_points_def bit_groups_1)

lemma points_QPSK:
  "constellation_points QPSK =
     [Complex 1 1 / of_real (sqrt 2), Complex 1 (-1) / of_real (sqrt 2),
      Complex (-1) 1 / of_real (sqrt 2), Complex (-1) (-1) / of_real (sqrt 2)]"
  by (simp add: constellation_points_def bit_groups_2 broadcast2_def Complex_eq)

lemma points_QAM16: "constellation_points QAM16 = constellation"
  by (simp add: constellation_points_def bit_groups_4 constellation_def)
     (simp add: mapping_def reshape_def)

text \<open>
  Each coordinate of a 16-QAM point is fixed by two bits: the first chooses the sign,
  the second chooses between the outer level 3 and the inner level 1.
\<close>

lemma qam16_axis_levels:
  assumes "is_bits [a, b, c, d]"
  shows "modulate QAM16 [a, b, c, d] =
     Inr [Complex (of_int ((2 * a - 1) * (3 - 2 * b))) (of_int ((2 * c - 1) * (3 - 2 * d)))
            / of_real (sqrt 10)]"
proof -
  have "a = 0 \<or> a = 1" "b = 0 \<or> b = 1" "c = 0 \<or> c = 1" "d = 0 \<or> d = 1"
    using assms by (simp_all add: is_bits_def)
  then show ?thesis
    by (elim disjE; simp add: reshape_def mapping_def)
qed

subsection \<open>The index of the minimum\<close>

lemma argmin_total: "ds \<noteq> [] \<Longrightarrow> \<exists>j. argmin ds = Inr j \<and> j < length ds"
proof (induction ds rule: argmin.induct)
  case 1
  then show ?case by simp
next
  case (2 x)
  then show ?case by simp
next
  case (3 x y ys)
  then obtain j where "argmin (y # ys) = Inr j" "j < length (y # ys)" by auto
  then show ?case by simp
qed

text \<open>The index found holds a minimum, and no earlier index holds one.\<close>

lemma argmin_least:
  "argmin ds = Inr j \<Longrightarrow>
     j < length ds \<and> (\<forall>i<length ds. ds ! j \<le> ds ! i) \<and> (\<forall>i<j. ds ! j < ds ! i)"
proof (induction ds arbitrary: j rule: argmin.induct)
  case 1
  then show ?case by simp
next
  case (2 x)
  then show ?case by simp
next
  case (3 x y ys)
  obtain j' where j': "argmin (y # ys) = Inr j'"
    using 3(2) by (auto split: sum.splits)
  have ih: "j' < length (y # ys)" "\<forall>i<length (y # ys). (y # ys) ! j' \<le> (y # ys) ! i"
    "\<forall>i<j'. (y # ys) ! j' < (y # ys) ! i"
    using 3(1)[OF j'] by auto
  show ?case
  proof (cases "x \<le> (y # ys) ! j'")
    case True
    then have j0: "j = 0" using 3(2) j' by simp
    have "\<forall>i<length (x # y # ys). x \<le> (x # y # ys) ! i"
    proof (intro allI impI)
      fix i assume "i < length (x # y # ys)"
      then show "x \<le> (x # y # ys) ! i"
        using True ih(2) by (cases i) (auto intro: order_trans)
    qed
    then show ?thesis using j0 by simp
  next
    case False
    then have js: "j = Suc j'" using 3(2) j' by simp
    have a: "\<forall>i<length (x # y # ys). (y # ys) ! j' \<le> (x # y # ys) ! i"
    proof (intro allI impI)
      fix i assume "i < length (x # y # ys)"
      then show "(y # ys) ! j' \<le> (x # y # ys) ! i"
        using False ih(2) by (cases i) auto
    qed
    have b: "\<forall>i<Suc j'. (y # ys) ! j' < (x # y # ys) ! i"
    proof (intro allI impI)
      fix i assume "i < Suc j'"
      then show "(y # ys) ! j' < (x # y # ys) ! i"
        using False ih(3) by (cases i) auto
    qed
    show ?thesis using js ih(1) a b by simp
  qed
qed

lemma argmin_unique:
  assumes "i < length ds" and "\<forall>j<length ds. j \<noteq> i \<longrightarrow> ds ! i < ds ! j"
  shows "argmin ds = Inr i"
proof -
  from assms(1) have "ds \<noteq> []" by auto
  then obtain j where j: "argmin ds = Inr j" "j < length ds"
    using argmin_total by blast
  have "ds ! j \<le> ds ! i" using argmin_least[OF j(1)] assms(1) by blast
  then have "j = i" using assms(2) j(2) by force
  then show ?thesis using j by simp
qed

subsection \<open>Demodulation\<close>

text \<open>
  For any received symbol the 16-QAM loop body finds an index into the table and gives
  back the key stored there.
\<close>

lemma closest_bits_nearest:
  "\<exists>j<16. argmin (map (\<lambda>c. cmod (s - c)) constellation) = Inr j
        \<and> closest_bits s = Inr (fst (mapping ! j))"
proof -
  have "map (\<lambda>c. cmod (s - c)) constellation \<noteq> []"
    using length_constellation by auto
  then obtain j where j: "argmin (map (\<lambda>c. cmod (s - c)) constellation) = Inr j"
    "j < length (map (\<lambda>c. cmod (s - c)) constellation)"
    using argmin_total by blast
  then have j16: "j < 16" by (simp add: length_constellation)
  have "closest_bits s = Inr (fst (mapping ! j))"
    by (simp add: closest_bits_def j(1) constellation_nth[OF j16] demapping_nth[OF j16])
  then show ?thesis using j(1) j16 by blast
qed

lemma closest_bits_total: "\<exists>g. closest_bits s = Inr g \<and> length g = 4 \<and> is_bits g"
  using closest_bits_nearest[of s] keys_are_groups by blast

lemma qam_loop_concat:
  "qam_loop rx acc = Inr (acc @ concat (map (\<lambda>s. projr (closest_bits s)) rx))"
proof (induction rx arbitrary: acc)
  case Nil
  then show ?case by simp
next
  case (Cons s rx)
  obtain g where "closest_bits s = Inr g" using closest_bits_total by blast
  then show ?case by (simp add: Cons)
qed

lemma qam_loop_bits: "qam_loop rx acc = Inr out \<Longrightarrow> is_bits acc \<Longrightarrow> is_bits out"
proof (induction rx arbitrary: acc)
  case Nil
  then show ?case by simp
next
  case (Cons s rx)
  obtain g where g: "closest_bits s = Inr g" "is_bits g"
    using closest_bits_total by blast
  then have "is_bits (acc @ g)" using Cons.prems(2) by (simp add: is_bits_def)
  then show ?case using Cons.IH[of "acc @ g"] Cons.prems(1) g(1) by simp
qed

text \<open>One symbol alone is demodulated to one group of the scheme's width.\<close>

lemma demodulate_single:
  "\<exists>g. demodulate s (bits_per_symbol s) [x] = Inr g \<and> length g = bits_per_symbol s \<and> is_bits g"
proof (cases s)
  case BPSK
  then show ?thesis by (simp add: is_bits_def)
next
  case QPSK
  then show ?thesis by (simp add: assign_slice_def is_bits_def)
next
  case QAM16
  obtain g where "closest_bits x = Inr g" "length g = 4" "is_bits g"
    using closest_bits_total by blast
  then show ?thesis using QAM16 by simp
qed

text \<open>A sequence is demodulated to the groups of its symbols, one after the other.\<close>

lemma demodulate_groups:
  assumes "n = bits_per_symbol s * length rx"
  shows "demodulate s n rx =
     Inr (concat (map (\<lambda>x. projr (demodulate s (bits_per_symbol s) [x])) rx))"
proof (cases s)
  case BPSK
  have "concat (map (\<lambda>x. [if Re x < 0 then 1 else (0::int)]) rx)
      = map (\<lambda>x. if Re x < 0 then 1 else 0) rx"
    by (induction rx) simp_all
  then show ?thesis using BPSK by simp
next
  case QPSK
  then show ?thesis using assms by (simp add: assign_slice_def splice_map)
next
  case QAM16
  have "\<And>x. projr (demodulate QAM16 4 [x]) = projr (closest_bits x)"
  proof -
    fix x
    obtain g where "closest_bits x = Inr g" using closest_bits_total by blast
    then show "projr (demodulate QAM16 4 [x]) = projr (closest_bits x)" by simp
  qed
  then show ?thesis using QAM16 by (simp add: qam_loop_concat[of rx "[]", simplified])
qed

lemma concat_group:
  assumes "\<And>x. length (f x) = k" and "i < length xs"
  shows "take k (drop (i * k) (concat (map f xs))) = f (xs ! i)"
  using assms(2)
proof (induction xs arbitrary: i)
  case Nil
  then show ?case by simp
next
  case (Cons x xs)
  show ?case
  proof (cases i)
    case 0
    then show ?thesis using assms(1)[of x] by simp
  next
    case (Suc i')
    then have "i' < length xs" using Cons.prems by simp
    from Cons.IH[OF this] show ?thesis
      using Suc assms(1)[of x] by (simp add: add.commute)
  qed
qed

lemma length_concat_group:
  assumes "\<And>x. length (f x) = k"
  shows "length (concat (map f xs)) = k * length xs"
  by (induction xs) (simp_all add: assms)

subsection \<open>The channel\<close>

lemma length_received: "length (received_symbols s dB tx zr zi) = length tx"
  by (simp add: received_symbols_def noise_def)

lemma received_nth:
  assumes "i < length tx"
  shows "received_symbols s dB tx zr zi ! i =
     tx ! i + Complex (sqrt (noise_variance s dB) * zr i) (sqrt (noise_variance s dB) * zi i)"
  using assms by (simp add: received_symbols_def noise_def complex_eq_iff)

lemma noise_variance_pos: "0 < noise_variance s dB"
  by (cases s) (simp_all add: noise_variance_def EsN0_linear_def EbN0_linear_def)

lemma zero_noise: "received_symbols s dB tx (\<lambda>i. 0) (\<lambda>i. 0) = tx"
  by (rule nth_equalityI) (simp_all add: received_symbols_def noise_def)

subsection \<open>Modulation of a well-formed bit sequence\<close>

text \<open>Each table point is nearest to itself, so it is decoded to its own key.\<close>

lemma closest_bits_constellation:
  assumes "j < 16"
  shows "closest_bits (constellation ! j) = Inr (fst (mapping ! j))"
proof -
  let ?ds = "map (\<lambda>c. cmod (constellation ! j - c)) constellation"
  have "argmin ?ds = Inr j"
  proof (rule argmin_unique)
    show "j < length ?ds" using assms by (simp add: length_constellation)
    show "\<forall>i<length ?ds. i \<noteq> j \<longrightarrow> ?ds ! j < ?ds ! i"
    proof (intro allI impI)
      fix i assume i: "i < length ?ds" "i \<noteq> j"
      then have "constellation ! j \<noteq> constellation ! i"
        using assms distinct_constellation
        by (simp add: nth_eq_iff_index_eq length_constellation)
      then show "?ds ! j < ?ds ! i"
        using i(1) assms by (simp add: length_constellation)
    qed
  qed
  then show ?thesis
    by (simp add: closest_bits_def constellation_nth[OF assms] demapping_nth[OF assms])
qed

lemma group_roundtrip:
  assumes "g \<in> set (bit_groups 4)"
  shows "\<exists>v. map_of mapping g = Some v \<and> closest_bits (v / of_real (sqrt 10)) = Inr g"
proof -
  from assms have "g \<in> set (map fst mapping)" by (simp add: bit_groups_4)
  then obtain j where j: "j < 16" "fst (mapping ! j) = g"
    by (auto simp: in_set_conv_nth length_mapping)
  have "(g, snd (mapping ! j)) \<in> set mapping"
    using j by (metis length_mapping nth_mem prod.collapse)
  then have a: "map_of mapping g = Some (snd (mapping ! j))"
    using distinct_keys by simp
  have "constellation ! j = snd (mapping ! j) / of_real (sqrt 10)"
    using j(1) by (simp add: constellation_def length_mapping)
  then have "closest_bits (snd (mapping ! j) / of_real (sqrt 10)) = Inr g"
    using closest_bits_constellation[OF j(1)] j(2) by simp
  then show ?thesis using a by blast
qed

lemma qam_rows_roundtrip:
  assumes "is_bits bits" and "length bits mod 4 = 0"
  shows "\<exists>tx. map_rows (rows4 bits) = Inr tx
           \<and> (\<forall>acc. qam_loop (map (\<lambda>z. z / of_real (sqrt 10)) tx) acc = Inr (acc @ bits))"
  using assms
proof (induction bits rule: rows4.induct)
  case (1 a b c d xs)
  then have "is_bits xs" "length xs mod 4 = 0"
    by (simp_all add: is_bits_def)
  with 1(1) obtain tx where tx: "map_rows (rows4 xs) = Inr tx"
    "\<forall>acc. qam_loop (map (\<lambda>z. z / of_real (sqrt 10)) tx) acc = Inr (acc @ xs)"
    by blast
  have "[a, b, c, d] \<in> set (bit_groups 4)"
    using 1(2) by (simp add: set_bit_groups is_bits_def)
  then obtain v where v: "map_of mapping [a, b, c, d] = Some v"
    "closest_bits (v / of_real (sqrt 10)) = Inr [a, b, c, d]"
    using group_roundtrip by blast
  have "map_rows (rows4 (a # b # c # d # xs)) = Inr (v # tx)"
    using tx(1) v(1) by simp
  moreover have "\<forall>acc. qam_loop (map (\<lambda>z. z / of_real (sqrt 10)) (v # tx)) acc
      = Inr (acc @ a # b # c # d # xs)"
    using tx(2) v(2) by simp
  ultimately show ?case by blast
qed simp_all

text \<open>
  A well-formed bit sequence whose length is a multiple of the scheme's width is
  modulated without an exception, into one symbol for each group.
\<close>

lemma modulate_length:
  assumes "is_bits bits" and "bits_per_symbol s dvd length bits"
  shows "\<exists>tx. modulate s bits = Inr tx \<and> length tx * bits_per_symbol s = length bits"
proof (cases s)
  case BPSK
  then show ?thesis by simp
next
  case QPSK
  then have "even (length bits)" using assms(2) by simp
  then have "length (slice0 bits) = length bits div 2" "length (slice1 bits) = length bits div 2"
    by (simp_all add: length_slice0 length_slice1)
  then show ?thesis
    using QPSK \<open>even (length bits)\<close> by (simp add: broadcast2_def)
next
  case QAM16
  then have m4: "length bits mod 4 = 0" using assms(2) by (simp add: dvd_eq_mod_eq_0)
  obtain tx where tx: "map_rows (rows4 bits) = Inr tx"
    using qam_rows_roundtrip[OF assms(1) m4] by blast
  have "length tx = length bits div 4"
    using length_map_rows[OF tx] by (simp add: length_rows4)
  then show ?thesis
    using QAM16 m4 tx by (simp add: reshape_def) presburger
qed

subsection \<open>Noiseless trials\<close>

text \<open>With no noise added, QPSK and 16-QAM give back the transmitted bits.\<close>

lemma qpsk_decisions:
  assumes "is_bits bits" and "even (length bits)"
  shows "map (\<lambda>s. if Re s < 0 then 1 else 0)
           (map (\<lambda>z. z / of_real (sqrt 2))
              (map2 (+) (map (\<lambda>b. of_int (1 - 2 * b)) (slice0 bits))
                        (map (\<lambda>b. \<i> * of_int (1 - 2 * b)) (slice1 bits)))) = slice0 bits
       \<and> map (\<lambda>s. if Im s < 0 then 1 else 0)
           (map (\<lambda>z. z / of_real (sqrt 2))
              (map2 (+) (map (\<lambda>b. of_int (1 - 2 * b)) (slice0 bits))
                        (map (\<lambda>b. \<i> * of_int (1 - 2 * b)) (slice1 bits)))) = slice1 bits"
  using assms
proof (induction bits rule: slice0.induct)
  case 1
  then show ?case by simp
next
  case (2 x)
  then show ?case by simp
next
  case (3 x y xs)
  then have "x = 0 \<or> x = 1" "y = 0 \<or> y = 1" "is_bits xs" "even (length xs)"
    by (simp_all add: is_bits_def)
  then show ?case using 3(1) by auto
qed

lemma qpsk_noiseless_roundtrip:
  assumes "is_bits bits" and "even (length bits)"
  shows "simulate_trial QPSK dB bits (\<lambda>i. 0) (\<lambda>i. 0) = Inr bits"
proof -
  let ?tx = "map (\<lambda>z. z / of_real (sqrt 2))
              (map2 (+) (map (\<lambda>b. of_int (1 - 2 * b)) (slice0 bits))
                        (map (\<lambda>b. \<i> * of_int (1 - 2 * b)) (slice1 bits)))"
  have len: "length (slice0 bits) = length bits div 2" "length (slice1 bits) = length bits div 2"
    using assms(2) by (simp_all add: length_slice0 length_slice1)
  have m: "modulate QPSK bits = Inr ?tx"
    using len by (simp add: broadcast2_def)
  have d: "demodulate QPSK (length bits) ?tx = Inr (splice (slice0 bits) (slice1 bits))"
    using qpsk_decisions[OF assms] len assms(2)
    by (simp add: assign_slice_def Let_def)
  show ?thesis
    by (simp only: simulate_trial_def m sum.case zero_noise d splice_slices)
qed

lemma qam16_noiseless_roundtrip:
  assumes "is_bits bits" and "4 dvd length bits"
  shows "simulate_trial QAM16 dB bits (\<lambda>i. 0) (\<lambda>i. 0) = Inr bits"
proof -
  have m4: "length bits mod 4 = 0" using assms(2) by (simp add: dvd_eq_mod_eq_0)
  obtain tx where tx: "map_rows (rows4 bits) = Inr tx"
    "\<forall>acc. qam_loop (map (\<lambda>z. z / of_real (sqrt 10)) tx) acc = Inr (acc @ bits)"
    using qam_rows_roundtrip[OF assms(1) m4] by blast
  have "modulate QAM16 bits = Inr (map (\<lambda>z. z / of_real (sqrt 10)) tx)"
    using m4 tx(1) by (simp add: reshape_def)
  then show ?thesis
    using tx(2) by (simp add: simulate_trial_def zero_noise)
qed

text \<open>With no noise added, BPSK gives back every bit inverted.\<close>

lemma bpsk_noiseless_inverts:
  assumes "is_bits bits"
  shows "simulate_trial BPSK dB bits (\<lambda>i. 0) (\<lambda>i. 0) = Inr (map (\<lambda>b. 1 - b) bits)"
proof -
  have "map ((\<lambda>s. if Re s < 0 then 1 else 0) \<circ> (\<lambda>b. of_int (2 * b - 1))) bits
      = map (\<lambda>b. 1 - b) bits"
    using assms by (induction bits) (auto simp: is_bits_def)
  then show ?thesis by (simp add: simulate_trial_def zero_noise)
qed

subsection \<open>Bit counts that the symbol width does not divide\<close>

lemma qpsk_odd_fails:
  assumes "odd (length bits)"
  shows "simulate_trial QPSK dB bits zr zi = Inl ValueError"
proof -
  obtain m where n: "length bits = 2 * m + 1"
    using assms by (auto elim: oddE)
  have l0: "length (slice0 bits) = m + 1" and l1: "length (slice1 bits) = m"
    using n by (simp_all add: length_slice0 length_slice1)
  consider "m = 0" | "m = 1" | "2 \<le> m" by linarith
  then show ?thesis
  proof cases
    case 1
    then have "modulate QPSK bits = Inr []"
      using l0 l1 by (simp add: broadcast2_def)
    then show ?thesis
      using n 1 by (simp add: simulate_trial_def received_symbols_def assign_slice_def)
  next
    case 2
    then obtain tx where tx: "modulate QPSK bits = Inr tx" "length tx = 2"
      using l0 l1 by (simp add: broadcast2_def)
    then show ?thesis
      using n 2 by (simp add: simulate_trial_def length_received assign_slice_def)
  next
    case 3
    then have "modulate QPSK bits = Inl ValueError"
      using l0 l1 by (simp add: broadcast2_def)
    then show ?thesis by (simp add: simulate_trial_def)
  qed
qed

lemma qam16_indivisible_fails:
  assumes "\<not> 4 dvd length bits"
  shows "simulate_trial QAM16 dB bits zr zi = Inl ValueError"
  using assms by (simp add: simulate_trial_def reshape_def dvd_eq_mod_eq_0)

section \<open>Properties\<close>

subsection \<open>Noiseless round trip\<close>

text \<open>
  C1. Noiseless round trip: for every scheme and every bit sequence whose length is a
  multiple of the scheme's width, demodulating the mapped symbols with no noise added
  gives back the original bits. QPSK and 16-QAM do so (\<open>qpsk_noiseless_roundtrip\<close>,
  \<open>qam16_noiseless_roundtrip\<close>). BPSK does not: its mapper sends bit 0 to -1, which
  the decision rule reads as bit 1, so the bits \<open>[0, 1]\<close> come back as \<open>[1, 0]\<close>.
\<close>

theorem bpsk_noiseless_roundtrip_fails:
  "simulate_trial BPSK 0 [0, 1] (\<lambda>i. 0) (\<lambda>i. 0) = Inr [1, 0]
   \<and> simulate_trial BPSK 0 [0, 1] (\<lambda>i. 0) (\<lambda>i. 0) \<noteq> Inr [0, 1]"
  by (simp add: simulate_trial_def zero_noise)

subsection \<open>The BPSK mapper\<close>

text \<open>
  C2. The BPSK mapper is meant to send bit 0 to the symbol +1 and bit 1 to the symbol -1.
  The branch computes \<open>2 * transmitted_bits - 1\<close>, so it sends bit 0 to -1 and bit 1
  to +1, against the comment written above it.
\<close>

theorem bpsk_mapper_inverted:
  "modulate BPSK [0] = Inr [-1] \<and> modulate BPSK [1] = Inr [1]
   \<and> modulate BPSK [0] \<noteq> Inr [1] \<and> modulate BPSK [1] \<noteq> Inr [-1]"
  by simp

subsection \<open>Demodulation in exact arithmetic\<close>

text \<open>
  In exact arithmetic demodulation raises no exception: for every scheme and every
  sequence of received symbols, with \<open>n\<close> the bit count that belongs to it, the
  demodulator returns a bit sequence; for any received symbol \<open>x\<close> the 16-QAM branch
  finds an index of minimum distance inside the table, and the reverse lookup succeeds
  because a point divided by the square root of 10 and multiplied by it again is the
  point. Whether the lookup of the program finds its key depends on how \<open>float64\<close>
  rounds the division and the multiplication, which exact arithmetic does not show.
\<close>

lemma demodulation_total_exact:
  assumes "n = bits_per_symbol s * length rx"
  shows "(\<exists>out. demodulate s n rx = Inr out)
       \<and> (\<exists>j g. argmin (map (\<lambda>c. cmod (x - c)) constellation) = Inr j
               \<and> j < length constellation
               \<and> demapping (constellation ! j * of_real (sqrt 10)) = Some g
               \<and> closest_bits x = Inr g)"
proof
  show "\<exists>out. demodulate s n rx = Inr out"
    using demodulate_groups[OF assms] by blast
  obtain j where j: "j < 16" "argmin (map (\<lambda>c. cmod (x - c)) constellation) = Inr j"
    "closest_bits x = Inr (fst (mapping ! j))"
    using closest_bits_nearest[of x] by blast
  have "demapping (constellation ! j * of_real (sqrt 10)) = Some (fst (mapping ! j))"
    by (simp only: constellation_nth[OF j(1)] demapping_nth[OF j(1)])
  then show "\<exists>j g. argmin (map (\<lambda>c. cmod (x - c)) constellation) = Inr j
               \<and> j < length constellation
               \<and> demapping (constellation ! j * of_real (sqrt 10)) = Some g
               \<and> closest_bits x = Inr g"
    using j by (auto simp: length_constellation)
qed

subsection \<open>The constellations\<close>

text \<open>
  C4. Energy normalization: for every scheme the mean of the squared magnitudes of the
  constellation points, each point counted once, is exactly 1; so it is for the
  normalized table that the 16-QAM demodulator builds.
\<close>

theorem energy_normalization:
  "sum_list (map (\<lambda>p. (cmod p)\<^sup>2) (constellation_points s))
       / real (length (constellation_points s)) = 1
   \<and> sum_list (map (\<lambda>p. (cmod p)\<^sup>2) constellation) / real (length constellation) = 1"
proof
  have q: "sum_list (map (\<lambda>p. (cmod p)\<^sup>2) constellation) / real (length constellation) = 1"
    by (simp add: constellation_def mapping_def cmod_power2 power_divide)
  show "sum_list (map (\<lambda>p. (cmod p)\<^sup>2) (constellation_points s))
       / real (length (constellation_points s)) = 1"
  proof (cases s)
    case BPSK
    then show ?thesis by (simp add: points_BPSK)
  next
    case QPSK
    then show ?thesis by (simp add: points_QPSK cmod_power2 power_divide)
  next
    case QAM16
    then show ?thesis using q by (simp only: points_QAM16)
  qed
  show "sum_list (map (\<lambda>p. (cmod p)\<^sup>2) constellation) / real (length constellation) = 1"
    by (rule q)
qed

subsection \<open>The channel\<close>

text \<open>
  C5. For every scheme, of width k, and every Eb/N0 in dB the noise variance of one
  dimension is 1 / (2 k 10^(dB/10)), a positive number; the received sequence has the
  length of the transmitted one, and its symbol \<open>i\<close> is the transmitted symbol \<open>i\<close>
  plus the real sample \<open>i\<close> and the imaginary sample \<open>i\<close>, each scaled by the square
  root of that variance.
\<close>

theorem awgn_channel:
  "noise_variance s dB = 1 / (2 * real (bits_per_symbol s) * 10 powr (dB / 10))
   \<and> 0 < noise_variance s dB
   \<and> length (received_symbols s dB tx zr zi) = length tx
   \<and> (\<forall>i<length tx. received_symbols s dB tx zr zi ! i =
          tx ! i + Complex (sqrt (noise_variance s dB) * zr i) (sqrt (noise_variance s dB) * zi i))"
  by (simp add: noise_variance_pos length_received received_nth)
     (simp add: noise_variance_def EsN0_linear_def EbN0_linear_def)

text \<open>QPSK at 0 dB: the variance is 1/4, so each sample is halved.\<close>

theorem awgn_channel_witness:
  "noise_variance QPSK 0 = 1 / 4
   \<and> (0::nat) < length [1::complex]
   \<and> received_symbols QPSK 0 [1] (\<lambda>i. 2) (\<lambda>i. - 2) ! 0 = Complex 2 (- 1)"
proof -
  note t = awgn_channel[of QPSK 0 "[1]" "\<lambda>i. 2" "\<lambda>i. - 2"]
  have h: "(0::nat) < length [1::complex]" by simp
  have nv: "noise_variance QPSK 0 = 1 / 4" using t by simp
  have s: "sqrt (noise_variance QPSK 0) = 1 / 2"
    unfolding nv by (simp add: real_sqrt_divide)
  have "received_symbols QPSK 0 [1] (\<lambda>i. 2) (\<lambda>i. - 2) ! 0 =
      [1] ! 0 + Complex (sqrt (noise_variance QPSK 0) * 2) (sqrt (noise_variance QPSK 0) * (- 2))"
    using t h by blast
  then have "received_symbols QPSK 0 [1] (\<lambda>i. 2) (\<lambda>i. - 2) ! 0 = Complex 2 (- 1)"
    unfolding s by (simp add: complex_eq_iff)
  then show ?thesis using nv h by blast
qed

subsection \<open>Bit counts that are not a multiple of the width\<close>

text \<open>
  C6. If the number of bits of a trial is not a multiple of the scheme's width, the trial
  raises an exception, \<open>ValueError\<close>, which nothing catches; no bit is dropped to make
  the count fit.
\<close>

theorem indivisible_length_fails:
  assumes "\<not> bits_per_symbol s dvd length bits"
  shows "simulate_trial s dB bits zr zi = Inl ValueError"
proof (cases s)
  case BPSK
  then show ?thesis using assms by simp
next
  case QPSK
  then show ?thesis using assms qpsk_odd_fails by simp
next
  case QAM16
  then show ?thesis using assms qam16_indivisible_fails by simp
qed

text \<open>Three bits under QPSK.\<close>

theorem indivisible_length_fails_witness:
  "\<not> bits_per_symbol QPSK dvd length [1, 0, 1 :: int]
   \<and> simulate_trial QPSK 3 [1, 0, 1] (\<lambda>i. 0) (\<lambda>i. 0) = Inl ValueError"
proof -
  have h: "\<not> bits_per_symbol QPSK dvd length [1, 0, 1 :: int]" by simp
  from indivisible_length_fails[OF h] h show ?thesis by blast
qed

subsection \<open>The symbol map is a bijection\<close>

text \<open>
  C7. Bijectivity: for every scheme of width k, each of the 2^k bit groups is mapped to
  exactly one point, and the 2^k points are pairwise distinct; in particular the 16
  values of the 16-QAM table are distinct.
\<close>

theorem symbol_map_bijective:
  "map (modulate s) (bit_groups (bits_per_symbol s)) = map (\<lambda>p. Inr [p]) (constellation_points s)
   \<and> set (bit_groups (bits_per_symbol s)) = {g. length g = bits_per_symbol s \<and> is_bits g}
   \<and> distinct (bit_groups (bits_per_symbol s))
   \<and> length (constellation_points s) = 2 ^ bits_per_symbol s
   \<and> distinct (constellation_points s)
   \<and> length mapping = 16 \<and> distinct (map snd mapping)"
proof -
  have a: "map (modulate s) (bit_groups (bits_per_symbol s))
      = map (\<lambda>p. Inr [p]) (constellation_points s)"
  proof (cases s)
    case BPSK
    then show ?thesis by (simp add: points_BPSK bit_groups_1)
  next
    case QPSK
    then show ?thesis by (simp add: points_QPSK bit_groups_2 broadcast2_def Complex_eq)
  next
    case QAM16
    then show ?thesis
      by (simp add: points_QAM16 bit_groups_4 constellation_def mapping_def reshape_def)
  qed
  have "length (map (modulate s) (bit_groups (bits_per_symbol s)))
      = length (map (\<lambda>p. Inr [p] :: error + complex list) (constellation_points s))"
    using a by simp
  then have b: "length (constellation_points s) = 2 ^ bits_per_symbol s"
    by (simp add: length_bit_groups)
  have c: "distinct (constellation_points s)"
  proof (cases s)
    case BPSK
    then show ?thesis by (simp add: points_BPSK)
  next
    case QPSK
    then show ?thesis by (simp add: points_QPSK)
  next
    case QAM16
    then show ?thesis by (simp add: points_QAM16 distinct_constellation)
  qed
  show ?thesis
    using a b c set_bit_groups distinct_bit_groups length_mapping distinct_values
    by blast
qed

subsection \<open>The 16-QAM table\<close>

text \<open>
  C8. 16-QAM table fidelity: the group (0,0,0,0) is mapped to (-3-3j) / sqrt 10, the group
  (1,1,1,1) to (1+1j) / sqrt 10, and the sixteen groups, in lexicographic order, are
  mapped to the sixteen entries of the fixed table divided by sqrt 10.
\<close>

theorem qam16_table_fidelity:
  "modulate QAM16 [0, 0, 0, 0] = Inr [Complex (-3) (-3) / of_real (sqrt 10)]
   \<and> modulate QAM16 [1, 1, 1, 1] = Inr [Complex 1 1 / of_real (sqrt 10)]
   \<and> map (modulate QAM16) (bit_groups 4) =
       map (\<lambda>v. Inr [v / of_real (sqrt 10)])
         [Complex (-3) (-3), Complex (-3) (-1), Complex (-3) 3, Complex (-3) 1,
          Complex (-1) (-3), Complex (-1) (-1), Complex (-1) 3, Complex (-1) 1,
          Complex 3 (-3), Complex 3 (-1), Complex 3 3, Complex 3 1,
          Complex 1 (-3), Complex 1 (-1), Complex 1 3, Complex 1 1]
   \<and> bit_groups 4 =
        [[0,0,0,0], [0,0,0,1], [0,0,1,0], [0,0,1,1], [0,1,0,0], [0,1,0,1], [0,1,1,0], [0,1,1,1],
         [1,0,0,0], [1,0,0,1], [1,0,1,0], [1,0,1,1], [1,1,0,0], [1,1,0,1], [1,1,1,0], [1,1,1,1]]"
  by (simp add: bit_groups_4 mapping_def reshape_def)

subsection \<open>Length and order of the recovered bits\<close>

text \<open>
  C9. Length invariant: for every scheme and every trial on a well-formed bit sequence
  whose length is a multiple of the scheme's width, whatever the noise, the trial returns
  a recovered sequence of the length of the transmitted one, and its group \<open>i\<close> is the
  decision on the received symbol \<open>i\<close>.
\<close>

theorem length_and_order_invariant:
  assumes "is_bits bits" and "bits_per_symbol s dvd length bits"
  shows "\<exists>tx out. modulate s bits = Inr tx
           \<and> length tx * bits_per_symbol s = length bits
           \<and> simulate_trial s dB bits zr zi = Inr out
           \<and> length out = length bits
           \<and> (\<forall>i<length tx.
                 demodulate s (bits_per_symbol s) [received_symbols s dB tx zr zi ! i]
                   = Inr (take (bits_per_symbol s) (drop (i * bits_per_symbol s) out)))"
proof -
  let ?k = "bits_per_symbol s"
  obtain tx where tx: "modulate s bits = Inr tx" "length tx * ?k = length bits"
    using modulate_length[OF assms] by blast
  let ?rx = "received_symbols s dB tx zr zi"
  let ?f = "\<lambda>x. projr (demodulate s ?k [x])"
  let ?out = "concat (map ?f ?rx)"
  have lf: "\<And>x. length (?f x) = ?k"
  proof -
    fix x
    obtain g where "demodulate s ?k [x] = Inr g" "length g = ?k"
      using demodulate_single by blast
    then show "length (?f x) = ?k" by simp
  qed
  have n: "length bits = ?k * length ?rx"
    using tx(2) by (simp add: length_received mult.commute)
  have d: "demodulate s (length bits) ?rx = Inr ?out"
    by (rule demodulate_groups[OF n])
  have t: "simulate_trial s dB bits zr zi = Inr ?out"
    by (simp only: simulate_trial_def tx(1) sum.case d)
  have l: "length ?out = length bits"
    using length_concat_group[of ?f ?k ?rx, OF lf] n by simp
  have o: "\<forall>i<length tx. demodulate s ?k [?rx ! i] = Inr (take ?k (drop (i * ?k) ?out))"
  proof (intro allI impI)
    fix i assume i: "i < length tx"
    then have "i < length ?rx" by (simp add: length_received)
    then have "take ?k (drop (i * ?k) ?out) = ?f (?rx ! i)"
      using concat_group[of ?f ?k i ?rx, OF lf] by simp
    moreover obtain g where "demodulate s ?k [?rx ! i] = Inr g"
      using demodulate_single by blast
    ultimately show "demodulate s ?k [?rx ! i] = Inr (take ?k (drop (i * ?k) ?out))"
      by simp
  qed
  show ?thesis using tx t l o by blast
qed

text \<open>Four bits under QPSK at 3 dB.\<close>

theorem length_and_order_invariant_witness:
  "is_bits [0, 1, 1, 1] \<and> bits_per_symbol QPSK dvd length [0, 1, 1, 1 :: int]
   \<and> (\<exists>out. simulate_trial QPSK 3 [0, 1, 1, 1] (\<lambda>i. 5) (\<lambda>i. - 2) = Inr out
            \<and> length out = length [0, 1, 1, 1 :: int])"
proof -
  have h1: "is_bits [0, 1, 1, 1]" by (simp add: is_bits_def)
  have h2: "bits_per_symbol QPSK dvd length [0, 1, 1, 1 :: int]" by simp
  from length_and_order_invariant[OF h1 h2, of 3 "\<lambda>i. 5" "\<lambda>i. - 2"] h1 h2
  show ?thesis by blast
qed

subsection \<open>The recovered bits are bits\<close>

text \<open>
  C10. Every element of a recovered bit sequence is 0 or 1, for every scheme, every
  received sequence and every allocated length.
\<close>

theorem recovered_bits_binary:
  assumes "demodulate s n rx = Inr out" and "b \<in> set out"
  shows "b = 0 \<or> b = 1"
proof (cases s)
  case BPSK
  then show ?thesis using assms by auto
next
  case QPSK
  then obtain ev od where
    ev: "assign_slice ((n + 1) div 2) (map (\<lambda>s. if Re s < 0 then 1 else (0::int)) rx) = Inr ev" and
    od: "assign_slice (n div 2) (map (\<lambda>s. if Im s < 0 then 1 else (0::int)) rx) = Inr od" and
    out: "out = splice ev od"
    using assms(1) by (auto simp: Let_def split: sum.splits)
  have "b \<in> set ev \<union> set od" using assms(2) out by (simp add: splice_set)
  then show ?thesis
    using assign_slice_set[OF ev] assign_slice_set[OF od] by auto
next
  case QAM16
  then have "is_bits out"
    using assms(1) qam_loop_bits[of rx "[]" out] by (simp add: is_bits_def)
  then show ?thesis using assms(2) by (simp add: is_bits_def list_all_iff)
qed

text \<open>One QPSK symbol in the second quadrant.\<close>

theorem recovered_bits_binary_witness:
  "demodulate QPSK 2 [Complex (- 1) 1] = Inr [1, 0] \<and> (1::int) \<in> set [1, 0]
   \<and> ((1::int) = 0 \<or> (1::int) = 1)"
proof -
  have h1: "demodulate QPSK 2 [Complex (- 1) 1] = Inr [1, 0]"
    by (simp add: assign_slice_def)
  have h2: "(1::int) \<in> set [1, 0]" by simp
  have c: "(1::int) = 0 \<or> (1::int) = 1"
    by (rule recovered_bits_binary[OF h1 h2])
  show ?thesis using h1 h2 c by blast
qed

end
